theory Spec2Isabelle
  imports Main "HOL-Library.Word" "HOL-Library.Sublist"
begin

section \<open>Batched account fetch of \<^verbatim>\<open>ts/src/utils/rpc.ts\<close>\<close>

text \<open>
  The development embeds \<^verbatim>\<open>getMultipleAccounts\<close> and
  \<^verbatim>\<open>getMultipleAccountsCore\<close>. An asynchronous call is modelled by its outcome: a
  value of \<open>error + 'a\<close>, \<open>Inl\<close> for a rejected promise. The requests a call passes to the
  connection are returned beside the outcome, in the order they are issued.
\<close>

subsection \<open>Library types the module imports\<close>

type_synonym byte = "8 word"

text \<open>A \<^verbatim>\<open>Buffer\<close> is a sequence of bytes.\<close>

type_synonym Buffer = "byte list"

text \<open>
  Modelled from the spec: the \<^verbatim>\<open>Commitment\<close> type of the web3 library, whose
  declaration is not part of the module. The spec calls it an optional enum parameter; on
  the wire each level is a non-empty string, given by \<open>commitment_name\<close>.
\<close>

datatype Commitment =
  Processed | Confirmed | Finalized | Recent | Single | SingleGossip | Root | Max

fun commitment_name :: "Commitment \<Rightarrow> string" where
  "commitment_name Processed = ''processed''"
| "commitment_name Confirmed = ''confirmed''"
| "commitment_name Finalized = ''finalized''"
| "commitment_name Recent = ''recent''"
| "commitment_name Single = ''single''"
| "commitment_name SingleGossip = ''singleGossip''"
| "commitment_name Root = ''root''"
| "commitment_name Max = ''max''"

text \<open>
  Modelled from the spec: the \<^verbatim>\<open>PublicKey\<close> class of the web3 library, which is not
  part of the module. The spec describes an identifier as a key of 32 bytes that is written
  as a base-58 string on the wire; \<open>new_PublicKey\<close> (below, with the errors) parses such
  a string and \<open>toBase58\<close> writes it. Only the base-58 text of exactly 32 bytes stands
  for a key: the constructor throws on a string with a character outside the alphabet and
  on a string that stands for more or fewer bytes.
\<close>

datatype PublicKey = PublicKey (toBytes: "byte list")

definition base58_alphabet :: string where
  "base58_alphabet = ''123456789ABCDEFGHJKLMNPQRSTUVWXYZabcdefghijkmnopqrstuvwxyz''"

fun index_of :: "'a \<Rightarrow> 'a list \<Rightarrow> nat option" where
  "index_of x [] = None"
| "index_of x (y # ys) = (if x = y then Some 0 else map_option Suc (index_of x ys))"

fun base58_digits :: "string \<Rightarrow> nat list option" where
  "base58_digits [] = Some []"
| "base58_digits (c # cs) =
     (case index_of c base58_alphabet of
        None \<Rightarrow> None
      | Some d \<Rightarrow> map_option ((#) d) (base58_digits cs))"

function nat_bytes :: "nat \<Rightarrow> byte list" where
  "nat_bytes n = (if n = 0 then [] else nat_bytes (n div 256) @ [of_nat (n mod 256)])"
  by pat_completeness auto
termination
  by (relation "measure id") auto

declare nat_bytes.simps [simp del]

function nat_base58 :: "nat \<Rightarrow> string" where
  "nat_base58 n =
     (if n = 0 then [] else nat_base58 (n div 58) @ [base58_alphabet ! (n mod 58)])"
  by pat_completeness auto
termination
  by (relation "measure id") auto

declare nat_base58.simps [simp del]

definition bs58_decode :: "string \<Rightarrow> byte list option" where
  "bs58_decode s =
     (case base58_digits s of
        None \<Rightarrow> None
      | Some ds \<Rightarrow>
          Some (replicate (length (takeWhile (\<lambda>c. c = CHR ''1'') s)) 0
                @ nat_bytes (foldl (\<lambda>acc d. acc * 58 + d) 0 ds)))"

definition bs58_encode :: "byte list \<Rightarrow> string" where
  "bs58_encode bs =
     replicate (length (takeWhile (\<lambda>b. b = 0) bs)) (CHR ''1'')
     @ nat_base58 (foldl (\<lambda>acc b. acc * 256 + unat b) 0 bs)"

definition toBase58 :: "PublicKey \<Rightarrow> string" where
  "toBase58 k = bs58_encode (toBytes k)"

text \<open>
  Modelled from the spec: \<^verbatim>\<open>Buffer.from(s, "base64")\<close> of the buffer library, which is
  not part of the module. The spec asks for the base64 payload decoded into raw bytes. The
  call never throws: the text up to the first padding character is read, characters outside
  the alphabet carry no data (the alphabet has \<^verbatim>\<open>-\<close> and \<^verbatim>\<open>_\<close> beside \<^verbatim>\<open>+\<close> and
  \<^verbatim>\<open>/\<close>), four characters give three bytes, and a final group of three or two
  characters gives two bytes or one.
\<close>

definition b64_value :: "char \<Rightarrow> nat option" where
  "b64_value c =
     (let n = (of_char c :: nat) in
      if 65 \<le> n \<and> n \<le> 90 then Some (n - 65)
      else if 97 \<le> n \<and> n \<le> 122 then Some (n - 71)
      else if 48 \<le> n \<and> n \<le> 57 then Some (n + 4)
      else if c = CHR ''+'' \<or> c = CHR ''-'' then Some 62
      else if c = CHR ''/'' \<or> c = CHR ''_'' then Some 63
      else None)"

fun b64_bytes :: "nat list \<Rightarrow> byte list" where
  "b64_bytes (a # b # c # d # rest) =
     of_nat (a * 4 + b div 16) # of_nat ((b mod 16) * 16 + c div 4)
       # of_nat ((c mod 4) * 64 + d) # b64_bytes rest"
| "b64_bytes [a, b, c] = [of_nat (a * 4 + b div 16), of_nat ((b mod 16) * 16 + c div 4)]"
| "b64_bytes [a, b] = [of_nat (a * 4 + b div 16)]"
| "b64_bytes _ = []"

definition Buffer_from_base64 :: "string \<Rightarrow> Buffer" where
  "Buffer_from_base64 s =
     b64_bytes (List.map_filter b64_value (takeWhile (\<lambda>c. c \<noteq> CHR ''='') s))"

text \<open>
  The base64 encoding of a byte sequence (RFC 4648, with padding), the inverse direction of
  the round trip through the decoder.
\<close>

definition b64_char :: "nat \<Rightarrow> char" where
  "b64_char v =
     (if v < 26 then char_of (v + 65)
      else if v < 52 then char_of (v + 71)
      else if v < 62 then char_of (v - 4)
      else if v = 62 then CHR ''+'' else CHR ''/'')"

fun b64_sextets :: "byte list \<Rightarrow> nat list" where
  "b64_sextets (x # y # z # rest) =
     (unat x div 4) # ((unat x mod 4) * 16 + unat y div 16)
       # ((unat y mod 16) * 4 + unat z div 64) # (unat z mod 64) # b64_sextets rest"
| "b64_sextets [x, y] =
     [unat x div 4, (unat x mod 4) * 16 + unat y div 16, (unat y mod 16) * 4]"
| "b64_sextets [x] = [unat x div 4, (unat x mod 4) * 16]"
| "b64_sextets [] = []"

definition base64_encode :: "byte list \<Rightarrow> string" where
  "base64_encode bs =
     map b64_char (b64_sextets bs) @ replicate ((3 - length bs mod 3) mod 3) (CHR ''='')"

subsection \<open>Utility of the repository used by the module\<close>

text \<open>
  Modelled from the spec: \<^verbatim>\<open>chunks\<close>, which the module imports from
  \<^verbatim>\<open>utils/common\<close> and does not define. The spec gives its contract: the sequence is
  split into groups of at most \<open>sz\<close> elements, in order, no group is empty, and the
  empty sequence gives no group at all.
\<close>

function chunks :: "'a list \<Rightarrow> nat \<Rightarrow> 'a list list" where
  "chunks array sz =
     (if sz = 0 \<or> array = [] then []
      else take sz array # chunks (drop sz array) sz)"
  by pat_completeness auto
termination
  by (relation "measure (\<lambda>(array, sz). length array)") auto

declare chunks.simps [simp del]

subsection \<open>Wire data\<close>

text \<open>
  One entry of \<^verbatim>\<open>res.result.value\<close> is \<^verbatim>\<open>null\<close> (\<open>None\<close>) or an object with the
  fields the loop destructures; \<^verbatim>\<open>data\<close> is the pair of the encoded payload and the
  encoding tag.
\<close>

record RawAccount =
  raw_executable :: bool
  raw_owner :: string
  raw_lamports :: nat
  raw_data :: "string \<times> string"

record RpcResult =
  result_value :: "RawAccount option list"

record RpcError =
  error_message :: string

record RpcResponse =
  res_error :: "RpcError option"
  res_result :: "RpcResult option"

text \<open>The promise of \<^verbatim>\<open>_rpcRequest\<close> is rejected, or fulfilled with a response.\<close>

datatype RpcReply = Rejected string | Reply RpcResponse

text \<open>The elements of \<^verbatim>\<open>args\<close>: the array of key strings, and the commitment object.\<close>

datatype RpcArg = Keys "string list" | Config Commitment

type_synonym RpcCall = "string \<times> RpcArg list"

text \<open>
  A connection has its default commitment, which may be unset, and answers requests. The
  answer is not a function of the request alone: the first argument of \<open>rpcRequest\<close> is
  the number of requests the fetch has issued before this one.
\<close>

record Connection =
  commitment :: "Commitment option"
  rpcRequest :: "nat \<Rightarrow> string \<Rightarrow> RpcArg list \<Rightarrow> RpcReply"

record AccountInfo =
  executable :: bool
  owner :: PublicKey
  lamports :: nat
  data :: Buffer

text \<open>
  A slot of the result. \<^verbatim>\<open>publicKeys[idx]\<close> is \<^verbatim>\<open>undefined\<close> when \<open>idx\<close> is out of
  range, which is \<open>None\<close> here.
\<close>

record Slot =
  publicKey :: "PublicKey option"
  account :: AccountInfo

text \<open>
  What a call can throw: the rejection of the transport, an \<^verbatim>\<open>Error\<close> with its message,
  the failure of an \<^verbatim>\<open>assert\<close>, and the error of the \<^verbatim>\<open>PublicKey\<close> constructor.
\<close>

datatype error =
    TransportError string
  | Error string
  | AssertionError
  | PublicKeyError

definition new_PublicKey :: "string \<Rightarrow> error + PublicKey" where
  "new_PublicKey s =
     (case bs58_decode s of
        None \<Rightarrow> Inl PublicKeyError
      | Some bs \<Rightarrow> if length bs \<noteq> 32 then Inl PublicKeyError else Inr (PublicKey bs))"

subsection \<open>\<^verbatim>\<open>getMultipleAccountsCore\<close>\<close>

definition GET_MULTIPLE_ACCOUNTS_LIMIT :: nat where
  "GET_MULTIPLE_ACCOUNTS_LIMIT = 99"

fun join :: "string \<Rightarrow> string list \<Rightarrow> string" where
  "join sep [] = []"
| "join sep [x] = x"
| "join sep (x # y # ys) = x @ sep @ join sep (y # ys)"

text \<open>
  Truthiness, as the conditions of lines 82 and 113 need it: a string is truthy unless it is
  empty; an array is an object, and every object is truthy, the empty array included.
\<close>

definition truthy_string :: "string \<Rightarrow> bool" where
  "truthy_string s = (s \<noteq> [])"

definition truthy_array :: "'a list \<Rightarrow> bool" where
  "truthy_array xs = True"

text \<open>Lines 75 to 84: the effective commitment and the arguments of the request.\<close>

definition effectiveCommitment :: "Connection \<Rightarrow> Commitment option \<Rightarrow> Commitment option" where
  "effectiveCommitment connection commitmentOverride =
     (case commitmentOverride of Some c \<Rightarrow> Some c | None \<Rightarrow> commitment connection)"

definition rpcArgs :: "Connection \<Rightarrow> PublicKey list \<Rightarrow> Commitment option \<Rightarrow> RpcArg list" where
  "rpcArgs connection publicKeys commitmentOverride =
     (let args = [Keys (map toBase58 publicKeys)] in
      case effectiveCommitment connection commitmentOverride of
        None \<Rightarrow> args
      | Some c \<Rightarrow> if truthy_string (commitment_name c) then args @ [Config c] else args)"

text \<open>
  Lines 113 to 122: the value built for an entry that is not \<^verbatim>\<open>null\<close>. \<open>Inr None\<close>
  is \<^verbatim>\<open>value\<close> left at \<^verbatim>\<open>null\<close>.
\<close>

definition decodeValue :: "RawAccount option list \<Rightarrow> RawAccount \<Rightarrow> error + AccountInfo option" where
  "decodeValue whole acc =
     (if truthy_array whole then
        (if snd (raw_data acc) = ''base64'' then
           (case new_PublicKey (raw_owner acc) of
              Inl e \<Rightarrow> Inl e
            | Inr k \<Rightarrow>
                Inr (Some \<lparr>executable = raw_executable acc, owner = k,
                           lamports = raw_lamports acc,
                           data = Buffer_from_base64 (fst (raw_data acc))\<rparr>))
         else Inl AssertionError)
      else Inr None)"

text \<open>Lines 102 to 127: the loop over \<^verbatim>\<open>res.result.value\<close>, with the array built so far.\<close>

fun decodeAccounts ::
  "RawAccount option list \<Rightarrow> RawAccount option list \<Rightarrow> AccountInfo option list
     \<Rightarrow> error + AccountInfo option list" where
  "decodeAccounts whole [] accounts = Inr accounts"
| "decodeAccounts whole (None # rest) accounts = decodeAccounts whole rest (accounts @ [None])"
| "decodeAccounts whole (Some acc # rest) accounts =
     (case decodeValue whole acc of
        Inl e \<Rightarrow> Inl e
      | Inr None \<Rightarrow> Inl (Error ''Invalid response'')
      | Inr (Some v) \<Rightarrow> decodeAccounts whole rest (accounts @ [Some v]))"

text \<open>Lines 128 to 136: every account that is not \<^verbatim>\<open>null\<close> gets the key at its index.\<close>

definition nth_js :: "'a list \<Rightarrow> nat \<Rightarrow> 'a option" where
  "nth_js xs i = (if i < length xs then Some (xs ! i) else None)"

definition attachKeys :: "PublicKey list \<Rightarrow> AccountInfo option list \<Rightarrow> Slot option list" where
  "attachKeys publicKeys accounts =
     map (\<lambda>(idx, a). case a of
            None \<Rightarrow> None
          | Some v \<Rightarrow> Some \<lparr>publicKey = nth_js publicKeys idx, account = v\<rparr>)
       (enumerate 0 accounts)"

text \<open>Lines 87 to 136: what the call does with the reply to its request.\<close>

definition coreOutcome :: "PublicKey list \<Rightarrow> RpcReply \<Rightarrow> error + Slot option list" where
  "coreOutcome publicKeys reply =
     (case reply of
        Rejected e \<Rightarrow> Inl (TransportError e)
      | Reply res \<Rightarrow>
          (case res_error res of
             Some err \<Rightarrow>
               Inl (Error (''failed to get info about accounts ''
                           @ join '', '' (map toBase58 publicKeys)
                           @ '': '' @ error_message err))
           | None \<Rightarrow>
               (case res_result res of
                  None \<Rightarrow> Inl AssertionError
                | Some r \<Rightarrow>
                    (case decodeAccounts (result_value r) (result_value r) [] of
                       Inl e \<Rightarrow> Inl e
                     | Inr accounts \<Rightarrow> Inr (attachKeys publicKeys accounts)))))"

text \<open>
  Lines 68 to 86: the call issues one request, the \<open>n\<close>-th of the fetch (counted from 0),
  and its outcome is decided by the reply.
\<close>

definition getMultipleAccountsCore ::
  "Connection \<Rightarrow> nat \<Rightarrow> PublicKey list \<Rightarrow> Commitment option
     \<Rightarrow> RpcCall list \<times> (error + Slot option list)" where
  "getMultipleAccountsCore connection n publicKeys commitmentOverride =
     (let args = rpcArgs connection publicKeys commitmentOverride in
      ([(''getMultipleAccounts'', args)],
       coreOutcome publicKeys (rpcRequest connection n ''getMultipleAccounts'' args)))"

subsection \<open>\<^verbatim>\<open>getMultipleAccounts\<close>\<close>

text \<open>
  \<^verbatim>\<open>Promise.all\<close>: rejected with the reason of the promise that is rejected first,
  fulfilled with all the values when none is. The promises settle in an order the module
  does not control; \<open>order\<close> lists indices of promises in the order they settle, and a
  promise it does not list settles after the listed ones, by position.
\<close>

definition Promise_all :: "nat list \<Rightarrow> (error + 'a) list \<Rightarrow> error + 'a list" where
  "Promise_all order ps =
     (case List.find isl (map ((!) ps) (filter (\<lambda>i. i < length ps) order) @ ps) of
        Some p \<Rightarrow> (case p of Inl e \<Rightarrow> Inl e | Inr v \<Rightarrow> Inr [])
      | None \<Rightarrow> Inr (map projr ps))"

text \<open>
  Lines 46 to 66. Every call is started, and so every request is issued, before any reply is
  looked at; \<open>order\<close> is the order in which the calls of the second path settle.
\<close>

definition getMultipleAccounts ::
  "Connection \<Rightarrow> PublicKey list \<Rightarrow> Commitment option \<Rightarrow> nat list
     \<Rightarrow> RpcCall list \<times> (error + Slot option list)" where
  "getMultipleAccounts connection publicKeys commitmentOverride order =
     (if length publicKeys \<le> GET_MULTIPLE_ACCOUNTS_LIMIT then
        getMultipleAccountsCore connection 0 publicKeys commitmentOverride
      else
        (let batches = chunks publicKeys GET_MULTIPLE_ACCOUNTS_LIMIT;
             runs = map (\<lambda>(n, batch). getMultipleAccountsCore connection n batch commitmentOverride)
                      (enumerate 0 batches)
         in (concat (map fst runs),
             case Promise_all order (map snd runs) of
               Inl e \<Rightarrow> Inl e
             | Inr results \<Rightarrow> Inr (concat results))))"

subsection \<open>Notions the properties are stated with\<close>

text \<open>
  The identifier lists of the requests of a fetch: the whole list on the path of line 54,
  the chunks on the path of lines 56 to 64.
\<close>

definition batchesOf :: "PublicKey list \<Rightarrow> PublicKey list list" where
  "batchesOf publicKeys =
     (if length publicKeys \<le> GET_MULTIPLE_ACCOUNTS_LIMIT then [publicKeys]
      else chunks publicKeys GET_MULTIPLE_ACCOUNTS_LIMIT)"

text \<open>The reply of the connection to the \<open>n\<close>-th request of a fetch, made for \<open>batch\<close>.\<close>

definition replyTo :: "Connection \<Rightarrow> Commitment option \<Rightarrow> nat \<Rightarrow> PublicKey list \<Rightarrow> RpcReply" where
  "replyTo connection commitmentOverride n batch =
     rpcRequest connection n ''getMultipleAccounts'' (rpcArgs connection batch commitmentOverride)"

definition replies :: "Connection \<Rightarrow> PublicKey list \<Rightarrow> Commitment option \<Rightarrow> RpcReply list" where
  "replies connection publicKeys commitmentOverride =
     map (\<lambda>(n, batch). replyTo connection commitmentOverride n batch)
       (enumerate 0 (batchesOf publicKeys))"

text \<open>The outcomes of the calls of \<^verbatim>\<open>getMultipleAccountsCore\<close>, one for each request.\<close>

definition outcomes ::
  "Connection \<Rightarrow> PublicKey list \<Rightarrow> Commitment option \<Rightarrow> (error + Slot option list) list" where
  "outcomes connection publicKeys commitmentOverride =
     map (\<lambda>(n, batch). coreOutcome batch (replyTo connection commitmentOverride n batch))
       (enumerate 0 (batchesOf publicKeys))"

text \<open>The raw entries a reply carries; none when it has no result.\<close>

definition replyEntries :: "RpcReply \<Rightarrow> RawAccount option list" where
  "replyEntries reply =
     (case reply of
        Rejected e \<Rightarrow> []
      | Reply res \<Rightarrow> (case res_result res of None \<Rightarrow> [] | Some r \<Rightarrow> result_value r))"

text \<open>
  The account and the slot that a raw entry stands for, once the entry has passed the checks
  of the loop: \<^verbatim>\<open>null\<close> for \<^verbatim>\<open>null\<close>, the value of lines 116 to 121 otherwise.
\<close>

definition decodedAccount :: "RawAccount option \<Rightarrow> AccountInfo option" where
  "decodedAccount e =
     (case e of
        None \<Rightarrow> None
      | Some acc \<Rightarrow> (case decodeValue [] acc of Inl err \<Rightarrow> None | Inr v \<Rightarrow> v))"

definition decodedSlot :: "PublicKey option \<Rightarrow> RawAccount option \<Rightarrow> Slot option" where
  "decodedSlot k e = map_option (\<lambda>v. \<lparr>publicKey = k, account = v\<rparr>) (decodedAccount e)"

text \<open>The structured error object of a reply, when it has one.\<close>

definition replyError :: "RpcReply \<Rightarrow> RpcError option" where
  "replyError reply = (case reply of Rejected e \<Rightarrow> None | Reply res \<Rightarrow> res_error res)"

text \<open>The identifier strings a request carries: its first positional parameter.\<close>

definition callKeys :: "RpcCall \<Rightarrow> string list" where
  "callKeys call = (case snd call of Keys ks # rest \<Rightarrow> ks | _ \<Rightarrow> [])"

text \<open>The message the module builds when the reply to a request for \<open>batch\<close> has an error.\<close>

definition failureMessage :: "PublicKey list \<Rightarrow> RpcError \<Rightarrow> string" where
  "failureMessage batch err =
     ''failed to get info about accounts '' @ join '', '' (map toBase58 batch)
     @ '': '' @ error_message err"

subsection \<open>Example values\<close>

text \<open>A connection with default commitment \<open>d\<close> whose \<open>n\<close>-th reply is \<open>r n\<close>.\<close>

definition scripted :: "Commitment option \<Rightarrow> (nat \<Rightarrow> RpcReply) \<Rightarrow> Connection" where
  "scripted d r = \<lparr>commitment = d, rpcRequest = (\<lambda>n method args. r n)\<rparr>"

definition okReply :: "RawAccount option list \<Rightarrow> RpcReply" where
  "okReply entries =
     Reply \<lparr>res_error = None, res_result = Some \<lparr>result_value = entries\<rparr>\<rparr>"

definition errorReply :: "string \<Rightarrow> RpcReply" where
  "errorReply msg = Reply \<lparr>res_error = Some \<lparr>error_message = msg\<rparr>, res_result = None\<rparr>"

definition emptyReply :: RpcReply where
  "emptyReply = Reply \<lparr>res_error = None, res_result = None\<rparr>"

text \<open>The key of 32 zero bytes, written \<open>11111111111111111111111111111111\<close>.\<close>

definition zeroKey :: PublicKey where
  "zeroKey = PublicKey (replicate 32 0)"

definition rawExample :: "string \<Rightarrow> string \<Rightarrow> string \<Rightarrow> RawAccount" where
  "rawExample ownerText payload tag =
     \<lparr>raw_executable = False, raw_owner = ownerText, raw_lamports = 7,
      raw_data = (payload, tag)\<rparr>"

definition otherKey :: PublicKey where
  "otherKey = PublicKey (replicate 32 255)"

text \<open>An entry owned by \<open>zeroKey\<close> whose payload is the base64 text of the bytes 72, 105, 33.\<close>

definition rawOk :: RawAccount where
  "rawOk = rawExample ''11111111111111111111111111111111'' ''SGkh'' ''base64''"

definition accountOk :: AccountInfo where
  "accountOk = \<lparr>executable = False, owner = zeroKey, lamports = 7, data = [72, 105, 33]\<rparr>"

text \<open>A list of 100 identifiers, which the fetch splits into 99 and 1.\<close>

definition keys100 :: "PublicKey list" where
  "keys100 = replicate 99 zeroKey @ [otherKey]"

text \<open>Connections without a default commitment, named by the replies they give.\<close>

definition silent :: Connection where
  "silent = scripted None (\<lambda>n. emptyReply)"

definition noEntries :: Connection where
  "noEntries = scripted None (\<lambda>n. okReply [])"

definition twoEntries :: Connection where
  "twoEntries = scripted None (\<lambda>n. okReply [None, Some rawOk])"

definition timeoutThenBoom :: Connection where
  "timeoutThenBoom =
     scripted None (\<lambda>n. if n = 0 then Rejected ''timeout'' else errorReply ''boom'')"

definition threeNulls :: Connection where
  "threeNulls = scripted None (\<lambda>n. okReply [None, None, None])"

text \<open>
  An entry owned by \<open>zeroKey\<close> whose payload is the base64 encoding of the bytes 72, 105,
  33.
\<close>

definition rawEncoded :: RawAccount where
  "rawEncoded =
     rawExample ''11111111111111111111111111111111'' (base64_encode [72, 105, 33]) ''base64''"

section \<open>Auxiliary facts\<close>

subsection \<open>Base64 round trip\<close>

text \<open>
  The decoder of the buffer library inverts the encoder: each group of four sextets gives back
  the three bytes it was made from, and the padding is not read.
\<close>

lemma byte_bound: "unat (x :: byte) < 256"
proof -
  have "unat x < 2 ^ LENGTH(8)"
    by (rule unsigned_less)
  then show ?thesis by simp
qed

lemma split_hi: "r < m \<Longrightarrow> (k * m + r) div m = (k :: nat)"
  by simp

lemma split_lo: "r < m \<Longrightarrow> (k * m + r) mod m = (r :: nat)"
  by simp

lemma byte_first: "(of_nat (unat x div 4 * 4 + (unat x mod 4 * 16 + unat (y :: byte) div 16) div 16) :: byte) = x"
proof -
  have "unat y div 16 < 16" using byte_bound [of y] by simp
  then have "(unat x mod 4 * 16 + unat y div 16) div 16 = unat x mod 4"
    by (rule split_hi)
  then have "unat x div 4 * 4 + (unat x mod 4 * 16 + unat y div 16) div 16 = unat x"
    by simp
  then show ?thesis by simp
qed

lemma byte_second:
  "(of_nat ((unat (x :: byte) mod 4 * 16 + unat y div 16) mod 16 * 16 + (unat y mod 16 * 4 + unat (z :: byte) div 64) div 4) :: byte) = y"
proof -
  have "unat y div 16 < 16" using byte_bound [of y] by simp
  then have hi: "(unat x mod 4 * 16 + unat y div 16) mod 16 = unat y div 16"
    by (rule split_lo)
  have "unat z div 64 < 4" using byte_bound [of z] by simp
  then have lo: "(unat y mod 16 * 4 + unat z div 64) div 4 = unat y mod 16"
    by (rule split_hi)
  have "(unat x mod 4 * 16 + unat y div 16) mod 16 * 16 + (unat y mod 16 * 4 + unat z div 64) div 4 = unat y"
    unfolding hi lo by simp
  then show ?thesis by simp
qed

lemma byte_third:
  "(of_nat ((unat (y :: byte) mod 16 * 4 + unat z div 64) mod 4 * 64 + unat z mod 64) :: byte) = z"
proof -
  have "unat z div 64 < 4" using byte_bound [of z] by simp
  then have hi: "(unat y mod 16 * 4 + unat z div 64) mod 4 = unat z div 64"
    by (rule split_lo)
  have "(unat y mod 16 * 4 + unat z div 64) mod 4 * 64 + unat z mod 64 = unat z"
    unfolding hi by simp
  then show ?thesis by simp
qed

lemma byte_second_last:
  "(of_nat ((unat (x :: byte) mod 4 * 16 + unat y div 16) mod 16 * 16 + (unat y mod 16 * 4) div 4) :: byte) = y"
  using byte_second [of x y 0] by simp

lemma byte_first_last: "(of_nat (unat x div 4 * 4 + (unat x mod 4 * 16) div 16) :: byte) = x"
  using byte_first [of x 0] by simp

lemma b64_bytes_sextets: "b64_bytes (b64_sextets bs) = bs"
  by (induction bs rule: b64_sextets.induct)
     (simp_all only: b64_sextets.simps b64_bytes.simps byte_first byte_second byte_third
        byte_second_last byte_first_last)

lemma b64_sextets_bound: "list_all (\<lambda>v. v < 64) (b64_sextets bs)"
proof (induction bs rule: b64_sextets.induct)
  case (1 x y z rest)
  have "unat x div 4 < 64" "unat y div 16 < 16" "unat z div 64 < 4" "unat x mod 4 < 4" "unat y mod 16 < 16"
    using byte_bound [of x] byte_bound [of y] byte_bound [of z] by simp_all
  then have "unat x div 4 < 64" "unat x mod 4 * 16 + unat y div 16 < 64"
    "unat y mod 16 * 4 + unat z div 64 < 64"
    by linarith+
  with 1 show ?case by simp
next
  case (2 x y)
  have "unat x div 4 < 64" "unat y div 16 < 16" "unat x mod 4 < 4" "unat y mod 16 < 16"
    using byte_bound [of x] byte_bound [of y] by simp_all
  then have "unat x div 4 < 64" "unat x mod 4 * 16 + unat y div 16 < 64" "unat y mod 16 * 4 < 64"
    by linarith+
  then show ?case by simp
next
  case (3 x)
  have "unat x div 4 < 64" "unat x mod 4 < 4"
    using byte_bound [of x] by simp_all
  then have "unat x div 4 < 64" "unat x mod 4 * 16 < 64"
    by linarith+
  then show ?case by simp
qed simp

lemma b64_char_not_pad: "b64_char v \<noteq> CHR ''=''"
proof
  assume "b64_char v = CHR ''=''"
  then have "(of_char (b64_char v) :: nat) = of_char (CHR ''='')"
    by simp
  then show False
    unfolding b64_char_def by (auto simp: of_char_of split: if_splits)
qed

lemma takeWhile_encoded:
  "takeWhile (\<lambda>c. c \<noteq> CHR ''='') (map b64_char vs @ replicate k (CHR ''='')) = map b64_char vs"
  by (induction vs) (auto simp: b64_char_not_pad takeWhile_replicate)

lemma b64_value_char: "v < 64 \<Longrightarrow> b64_value (b64_char v) = Some v"
  unfolding b64_value_def b64_char_def Let_def
  by (auto simp: of_char_of)

lemma map_filter_b64: "list_all (\<lambda>v. v < 64) vs \<Longrightarrow> List.map_filter b64_value (map b64_char vs) = vs"
  by (induction vs) (simp_all add: List.map_filter_simps b64_value_char)

lemma base64_roundtrip: "Buffer_from_base64 (base64_encode bs) = bs"
  unfolding Buffer_from_base64_def base64_encode_def
  by (simp add: takeWhile_encoded map_filter_b64 b64_sextets_bound b64_bytes_sextets)

subsection \<open>Chunks\<close>

text \<open>
  The contract of \<open>chunks\<close>: order, size and number of the groups.
\<close>

lemma chunks_Nil: "chunks [] n = []"
  by (simp add: chunks.simps)

lemma chunks_step: "0 < n \<Longrightarrow> xs \<noteq> [] \<Longrightarrow> chunks xs n = take n xs # chunks (drop n xs) n"
  by (subst chunks.simps) simp

lemma concat_chunks: "0 < n \<Longrightarrow> concat (chunks xs n) = xs"
proof (induction xs n rule: chunks.induct)
  case (1 array sz)
  show ?case
  proof (cases "array = []")
    case True
    then show ?thesis by (simp add: chunks_Nil)
  next
    case False
    with "1.prems" have step: "chunks array sz = take sz array # chunks (drop sz array) sz"
      by (intro chunks_step) simp_all
    from False 1 have "concat (chunks (drop sz array) sz) = drop sz array"
      by simp
    with step show ?thesis by simp
  qed
qed

lemma chunks_bounded: "c \<in> set (chunks xs n) \<Longrightarrow> c \<noteq> [] \<and> length c \<le> n"
proof (induction xs n rule: chunks.induct)
  case (1 array sz)
  show ?case
  proof (cases "sz = 0 \<or> array = []")
    case True
    then have "chunks array sz = []"
      by (subst chunks.simps) simp
    with "1.prems" show ?thesis by simp
  next
    case False
    then have step: "chunks array sz = take sz array # chunks (drop sz array) sz"
      by (intro chunks_step) simp_all
    with "1.prems" have "c = take sz array \<or> c \<in> set (chunks (drop sz array) sz)"
      by simp
    then show ?thesis
    proof
      assume "c = take sz array"
      with False show ?thesis by simp
    next
      assume "c \<in> set (chunks (drop sz array) sz)"
      with False "1.IH" show ?thesis by simp
    qed
  qed
qed

lemma length_chunks: "0 < n \<Longrightarrow> length (chunks xs n) = (length xs + (n - 1)) div n"
proof (induction xs n rule: chunks.induct)
  case (1 array sz)
  show ?case
  proof (cases "array = []")
    case True
    with "1.prems" show ?thesis by (simp add: chunks_Nil)
  next
    case False
    with "1.prems" have step: "chunks array sz = take sz array # chunks (drop sz array) sz"
      by (intro chunks_step) simp_all
    from False 1 have ih: "length (chunks (drop sz array) sz) = (length (drop sz array) + (sz - 1)) div sz"
      by simp
    from False have pos: "0 < length array" by simp
    show ?thesis
    proof (cases "length array \<le> sz")
      case True
      have "(length array + (sz - 1)) div sz = 1"
      proof (rule div_nat_eqI)
        show "sz * 1 \<le> length array + (sz - 1)" using pos by linarith
        show "length array + (sz - 1) < sz * Suc 1" using True "1.prems" by simp
      qed
      moreover from True have "drop sz array = []" by simp
      ultimately show ?thesis
        using step by (simp add: chunks_Nil)
    next
      case long: False
      then have "length array + (sz - 1) = (length array - sz + (sz - 1)) + sz"
        by simp
      then have "(length array + (sz - 1)) div sz = (length array - sz + (sz - 1)) div sz + 1"
        using "1.prems" by (simp only: div_add_self2)
      with step ih show ?thesis
        by simp
    qed
  qed
qed

lemma chunks_150: "length xs = 150 \<Longrightarrow> map length (chunks xs 99) = [99, 51]"
proof -
  assume len: "length xs = 150"
  then have one: "chunks xs 99 = take 99 xs # chunks (drop 99 xs) 99"
    by (intro chunks_step) auto
  from len have two: "chunks (drop 99 xs) 99 = take 99 (drop 99 xs) # chunks (drop 99 (drop 99 xs)) 99"
    by (intro chunks_step) auto
  from len have "drop 99 (drop 99 xs) = []" by simp
  with one two len show ?thesis by (simp add: chunks_Nil)
qed

subsection \<open>The join of the calls\<close>

text \<open>
  \<open>Promise_all\<close> succeeds exactly when every promise does, and fails with the failure of one of them.
\<close>

lemma find_Some_mem: "List.find P xs = Some x \<Longrightarrow> x \<in> set xs \<and> P x"
  by (induction xs) (auto split: if_splits)

lemma Promise_all_success:
  "Promise_all order ps = Inr vs \<longleftrightarrow> (\<forall>p\<in>set ps. \<not> isl p) \<and> vs = map projr ps"
proof (cases "List.find isl (map ((!) ps) (filter (\<lambda>i. i < length ps) order) @ ps)")
  case None
  then have "\<forall>p\<in>set ps. \<not> isl p"
    by (auto simp: find_None_iff)
  with None show ?thesis
    by (auto simp: Promise_all_def)
next
  case (Some p)
  then have "isl p" and "p \<in> set (map ((!) ps) (filter (\<lambda>i. i < length ps) order) @ ps)"
    using find_Some_mem by fastforce+
  then have "p \<in> set ps" by auto
  with \<open>isl p\<close> Some show ?thesis
    by (auto simp: Promise_all_def split: sum.splits)
qed

lemma Promise_all_failure:
  "Promise_all order ps = Inl e \<Longrightarrow> Inl e \<in> set ps"
proof (cases "List.find isl (map ((!) ps) (filter (\<lambda>i. i < length ps) order) @ ps)")
  case None
  then show "Promise_all order ps = Inl e \<Longrightarrow> Inl e \<in> set ps"
    by (simp add: Promise_all_def)
next
  case (Some p)
  then have "p \<in> set (map ((!) ps) (filter (\<lambda>i. i < length ps) order) @ ps)"
    using find_Some_mem by fastforce
  then have "p \<in> set ps" by auto
  moreover assume "Promise_all order ps = Inl e"
  ultimately show "Inl e \<in> set ps"
    using Some by (auto simp: Promise_all_def split: sum.splits)
qed

lemma Promise_all_fails_iff: "isl (Promise_all order ps) \<longleftrightarrow> (\<exists>p\<in>set ps. isl p)"
proof -
  have "\<not> isl (Promise_all order ps) \<longleftrightarrow> (\<exists>vs. Promise_all order ps = Inr vs)"
    by (cases "Promise_all order ps") simp_all
  then show ?thesis
    unfolding Promise_all_success by auto
qed

lemma Promise_all_only_failure:
  assumes "i < length ps" and "ps ! i = Inl e" and "\<forall>j<length ps. j \<noteq> i \<longrightarrow> \<not> isl (ps ! j)"
  shows "Promise_all order ps = Inl e"
proof -
  have "isl (Promise_all order ps)"
    unfolding Promise_all_fails_iff using assms(1,2) by (metis nth_mem sum.disc(1))
  then obtain e' where e': "Promise_all order ps = Inl e'"
    by (cases "Promise_all order ps") simp_all
  then have "Inl e' \<in> set ps" by (rule Promise_all_failure)
  then obtain j where "j < length ps" "ps ! j = Inl e'"
    by (auto simp: in_set_conv_nth)
  with assms have "e' = e"
    by (metis sum.disc(1) sum.inject(1))
  with e' show ?thesis by simp
qed

lemma Promise_all_single: "Promise_all order [p] = (case p of Inl e \<Rightarrow> Inl e | Inr v \<Rightarrow> Inr [v])"
proof (cases p)
  case (Inl e)
  then show ?thesis
    using Promise_all_only_failure [of 0 "[p]" e order] by simp
next
  case (Inr v)
  then have "Promise_all order [p] = Inr [v]"
    unfolding Promise_all_success by simp
  with Inr show ?thesis by simp
qed

subsection \<open>One call\<close>

text \<open>
  The arguments of a request and the outcome of a call, by cases on the reply.
\<close>

lemma truthy_commitment_name: "truthy_string (commitment_name l)"
  by (cases l) (simp_all add: truthy_string_def)

lemma rpcArgs_shape:
  "rpcArgs connection publicKeys commitmentOverride =
     Keys (map toBase58 publicKeys)
       # (case effectiveCommitment connection commitmentOverride of
            None \<Rightarrow> [] | Some l \<Rightarrow> [Config l])"
  by (simp add: rpcArgs_def truthy_commitment_name split: option.split)

lemma callKeys_request: "callKeys (m, rpcArgs c batch ov) = map toBase58 batch"
  by (simp add: callKeys_def rpcArgs_shape)

lemma decodeValue_not_null: "decodeValue whole acc \<noteq> Inr None"
  by (simp add: decodeValue_def truthy_array_def split: sum.split)


lemma decodeValue_whole: "decodeValue whole acc = decodeValue [] acc"
  by (simp add: decodeValue_def truthy_array_def)

lemma decodeValue_fails_iff:
  "isl (decodeValue whole acc) \<longleftrightarrow>
     snd (raw_data acc) \<noteq> ''base64'' \<or> isl (new_PublicKey (raw_owner acc))"
  by (simp add: decodeValue_def truthy_array_def split: sum.split)


lemma decodeAccounts_fails_whole:
  "isl (decodeAccounts whole entries accounts)
     \<longleftrightarrow> (\<exists>acc. Some acc \<in> set entries \<and> isl (decodeValue whole acc))"
proof (induction whole entries accounts rule: decodeAccounts.induct)
  case (3 whole acc rest accounts)
  then show ?case
    using decodeValue_not_null [of whole acc]
    by (auto split: sum.splits option.splits)
qed simp_all

lemma decodeAccounts_fails_iff:
  "isl (decodeAccounts whole entries accounts)
     \<longleftrightarrow> (\<exists>acc. Some acc \<in> set entries \<and> isl (decodeValue [] acc))"
  unfolding decodeAccounts_fails_whole decodeValue_whole [of whole] ..

lemma decodeAccounts_success:
  "decodeAccounts whole entries accounts = Inr out
     \<Longrightarrow> out = accounts @ map decodedAccount entries"
proof (induction whole entries accounts arbitrary: out rule: decodeAccounts.induct)
  case (1 whole accounts)
  then show ?case by simp
next
  case (2 whole rest accounts)
  then show ?case by (simp add: decodedAccount_def)
next
  case (3 whole acc rest accounts)
  from "3.prems" obtain v where v: "decodeValue whole acc = Inr (Some v)"
    and rest: "decodeAccounts whole rest (accounts @ [Some v]) = Inr out"
    by (auto split: sum.splits option.splits)
  from "3.IH" [OF v refl rest] have "out = (accounts @ [Some v]) @ map decodedAccount rest" .
  moreover from v have "decodedAccount (Some acc) = Some v"
    by (simp add: decodedAccount_def decodeValue_whole [of whole])
  ultimately show ?case by simp
qed

lemma decodedAccount_present:
  "\<not> isl (decodeValue whole acc) \<Longrightarrow> decodedAccount (Some acc) \<noteq> None"
  using decodeValue_not_null [of "[]" acc]
  by (auto simp: decodedAccount_def decodeValue_whole [of whole] split: sum.splits)

lemma decodedSlot_None [simp]: "decodedSlot k None = None"
  by (simp add: decodedSlot_def decodedAccount_def)

lemma decodedSlot_publicKey: "decodedSlot k e = Some s \<Longrightarrow> publicKey s = k"
  by (auto simp: decodedSlot_def)

lemma attachKeys_map:
  "attachKeys publicKeys (map decodedAccount entries) =
     map2 decodedSlot (map (nth_js publicKeys) [0..<length entries]) entries"
  by (rule nth_equalityI)
     (simp_all add: attachKeys_def nth_enumerate_eq decodedSlot_def split: option.split)

lemma nth_js_all: "map (nth_js xs) [0..<length xs] = map Some xs"
  by (rule nth_equalityI) (simp_all add: nth_js_def)

lemma coreOutcome_success:
  assumes "coreOutcome publicKeys reply = Inr slots"
  shows "slots = map2 decodedSlot (map (nth_js publicKeys) [0..<length (replyEntries reply)]) (replyEntries reply)"
    and "replyError reply = None"
    and "\<forall>acc. Some acc \<in> set (replyEntries reply) \<longrightarrow> \<not> isl (decodeValue [] acc)"
proof -
  from assms obtain res r accounts where reply: "reply = Reply res" and noerr: "res_error res = None"
    and r: "res_result res = Some r"
    and dec: "decodeAccounts (result_value r) (result_value r) [] = Inr accounts"
    and slots: "slots = attachKeys publicKeys accounts"
    by (auto simp: coreOutcome_def split: RpcReply.splits option.splits sum.splits)
  from reply r have entries: "replyEntries reply = result_value r"
    by (simp add: replyEntries_def)
  from dec have "accounts = map decodedAccount (result_value r)"
    using decodeAccounts_success by fastforce
  with slots entries show "slots = map2 decodedSlot (map (nth_js publicKeys) [0..<length (replyEntries reply)]) (replyEntries reply)"
    by (simp add: attachKeys_map)
  from reply noerr show "replyError reply = None"
    by (simp add: replyError_def)
  from dec have "\<not> isl (decodeAccounts (result_value r) (result_value r) [])"
    by simp
  then show "\<forall>acc. Some acc \<in> set (replyEntries reply) \<longrightarrow> \<not> isl (decodeValue [] acc)"
    unfolding decodeAccounts_fails_iff entries by blast
qed

lemma outcome_slots:
  assumes "coreOutcome batch reply = Inr s"
  shows "s = map2 decodedSlot (map (nth_js batch) [0..<length (replyEntries reply)]) (replyEntries reply)"
  using coreOutcome_success(1) [OF assms] .

lemma coreOutcome_fails_iff:
  "isl (coreOutcome publicKeys (Reply res)) \<longleftrightarrow>
     res_error res \<noteq> None \<or> res_result res = None
     \<or> (\<exists>acc. Some acc \<in> set (replyEntries (Reply res)) \<and> isl (decodeValue [] acc))"
proof (cases "res_error res")
  case (Some err)
  then show ?thesis by (simp add: coreOutcome_def)
next
  case None
  show ?thesis
  proof (cases "res_result res")
    case none: None
    with None show ?thesis by (simp add: coreOutcome_def)
  next
    case (Some r)
    have "isl (coreOutcome publicKeys (Reply res))
            \<longleftrightarrow> isl (decodeAccounts (result_value r) (result_value r) [])"
      using None Some by (simp add: coreOutcome_def split: sum.split)
    with None Some show ?thesis
      by (simp add: decodeAccounts_fails_iff replyEntries_def)
  qed
qed

lemma coreOutcome_fails_any_keys:
  "isl (coreOutcome publicKeys reply) \<longleftrightarrow> isl (coreOutcome otherKeys reply)"
proof (cases reply)
  case (Rejected e)
  then show ?thesis by (simp add: coreOutcome_def)
next
  case (Reply res)
  then show ?thesis by (simp only: coreOutcome_fails_iff)
qed

lemma coreOutcome_error:
  "replyError reply = Some err \<Longrightarrow> coreOutcome publicKeys reply = Inl (Error (failureMessage publicKeys err))"
  by (auto simp: coreOutcome_def replyError_def failureMessage_def split: RpcReply.splits)


lemma sublist_middle: "sublist xs (ps @ xs @ ss)"
  by (auto simp: sublist_def)

lemma failureMessage_contains:
  "sublist (error_message err) (failureMessage batch err)
   \<and> sublist (join '', '' (map toBase58 batch)) (failureMessage batch err)"
proof
  have "failureMessage batch err
      = (''failed to get info about accounts '' @ join '', '' (map toBase58 batch) @ '': '')
        @ error_message err @ []"
    by (simp add: failureMessage_def)
  then show "sublist (error_message err) (failureMessage batch err)"
    by (simp only: sublist_middle)
  show "sublist (join '', '' (map toBase58 batch)) (failureMessage batch err)"
    unfolding failureMessage_def by (rule sublist_middle)
qed

subsection \<open>The fetch\<close>

text \<open>
  Both paths of \<open>getMultipleAccounts\<close> issue one request for each element of \<open>batchesOf\<close> and
  join the outcomes of the calls; the path of line 54 is the case of a single batch.
\<close>

lemma length_outcomes: "length (outcomes c ks ov) = length (batchesOf ks)"
  by (simp add: outcomes_def)

lemma length_replies: "length (replies c ks ov) = length (batchesOf ks)"
  by (simp add: replies_def)

lemma nth_outcomes:
  "i < length (batchesOf ks) \<Longrightarrow>
     outcomes c ks ov ! i = coreOutcome (batchesOf ks ! i) (replies c ks ov ! i)"
  by (simp add: outcomes_def replies_def nth_enumerate_eq)

lemma runs_fst:
  "concat (map fst (map (\<lambda>(n, batch). getMultipleAccountsCore c n batch ov) (enumerate m bs)))
     = map (\<lambda>batch. (''getMultipleAccounts'', rpcArgs c batch ov)) bs"
  by (induction bs arbitrary: m) (simp_all add: getMultipleAccountsCore_def Let_def)

lemma runs_snd:
  "map snd (map (\<lambda>(n, batch). getMultipleAccountsCore c n batch ov) (enumerate m bs))
     = map (\<lambda>(n, batch). coreOutcome batch (replyTo c ov n batch)) (enumerate m bs)"
  by (induction bs arbitrary: m) (simp_all add: getMultipleAccountsCore_def Let_def replyTo_def)

lemma getMultipleAccounts_eq:
  "getMultipleAccounts c ks ov order =
     (map (\<lambda>batch. (''getMultipleAccounts'', rpcArgs c batch ov)) (batchesOf ks),
      case Promise_all order (outcomes c ks ov) of
        Inl e \<Rightarrow> Inl e
      | Inr results \<Rightarrow> Inr (concat results))"
proof (cases "length ks \<le> GET_MULTIPLE_ACCOUNTS_LIMIT")
  case True
  then show ?thesis
    by (simp add: getMultipleAccounts_def getMultipleAccountsCore_def batchesOf_def outcomes_def
        replyTo_def Promise_all_single Let_def split: sum.split)
next
  case False
  then have batches: "batchesOf ks = chunks ks GET_MULTIPLE_ACCOUNTS_LIMIT"
    by (simp add: batchesOf_def)
  show ?thesis
    unfolding getMultipleAccounts_def Let_def runs_fst runs_snd outcomes_def batches
    using False by simp
qed

lemma issued_requests:
  "fst (getMultipleAccounts c ks ov order) =
     map (\<lambda>batch. (''getMultipleAccounts'', rpcArgs c batch ov)) (batchesOf ks)"
  by (simp add: getMultipleAccounts_eq)

lemma request_keys:
  "map callKeys (fst (getMultipleAccounts c ks ov order)) = map (map toBase58) (batchesOf ks)"
  by (simp add: issued_requests callKeys_request comp_def)

lemma fetch_outcome:
  "snd (getMultipleAccounts c ks ov order) =
     (case Promise_all order (outcomes c ks ov) of
        Inl e \<Rightarrow> Inl e
      | Inr results \<Rightarrow> Inr (concat results))"
  by (simp add: getMultipleAccounts_eq)

lemma fetch_fails_iff:
  "isl (snd (getMultipleAccounts c ks ov order)) \<longleftrightarrow> (\<exists>p\<in>set (outcomes c ks ov). isl p)"
proof -
  have "isl (snd (getMultipleAccounts c ks ov order)) \<longleftrightarrow> isl (Promise_all order (outcomes c ks ov))"
    by (simp add: fetch_outcome split: sum.split)
  then show ?thesis by (simp add: Promise_all_fails_iff)
qed

lemma fetch_success:
  "snd (getMultipleAccounts c ks ov order) = Inr slots \<longleftrightarrow>
     (\<forall>p\<in>set (outcomes c ks ov). \<not> isl p) \<and> slots = concat (map projr (outcomes c ks ov))"
proof -
  have "snd (getMultipleAccounts c ks ov order) = Inr slots \<longleftrightarrow>
      (\<exists>results. Promise_all order (outcomes c ks ov) = Inr results \<and> slots = concat results)"
    by (auto simp: fetch_outcome split: sum.splits)
  then show ?thesis
    by (simp add: Promise_all_success)
qed

lemma fetch_failure:
  "snd (getMultipleAccounts c ks ov order) = Inl e \<Longrightarrow> Inl e \<in> set (outcomes c ks ov)"
  by (auto simp: fetch_outcome split: sum.splits dest: Promise_all_failure)

lemma concat_batchesOf: "concat (batchesOf ks) = ks"
  by (simp add: batchesOf_def GET_MULTIPLE_ACCOUNTS_LIMIT_def concat_chunks)

lemma batchesOf_short: "length ks \<le> 99 \<Longrightarrow> batchesOf ks = [ks]"
  by (simp add: batchesOf_def GET_MULTIPLE_ACCOUNTS_LIMIT_def)

lemma length_batchesOf: "ks \<noteq> [] \<Longrightarrow> length (batchesOf ks) = (length ks + 98) div 99"
proof (cases "length ks \<le> 99")
  case True
  assume "ks \<noteq> []"
  then have "0 < length ks" by simp
  have "(length ks + 98) div 99 = 1"
  proof (rule div_nat_eqI)
    show "99 * 1 \<le> length ks + 98" using \<open>ks \<noteq> []\<close> by (cases ks) simp_all
    show "length ks + 98 < 99 * Suc 1" using True by simp
  qed
  with True show ?thesis by (simp add: batchesOf_short)
next
  case False
  then show ?thesis
    by (simp add: batchesOf_def GET_MULTIPLE_ACCOUNTS_LIMIT_def length_chunks)
qed

lemma batchesOf_bounded: "batch \<in> set (batchesOf ks) \<Longrightarrow> length batch \<le> 99"
  using chunks_bounded [of batch ks 99]
  by (auto simp: batchesOf_def GET_MULTIPLE_ACCOUNTS_LIMIT_def split: if_splits)

lemma batchesOf_150: "length ks = 150 \<Longrightarrow> map length (batchesOf ks) = [99, 51]"
  by (simp add: batchesOf_def GET_MULTIPLE_ACCOUNTS_LIMIT_def chunks_150)

lemma concat_map2_zip:
  "list_all2 (\<lambda>b es. length es = length b) bs ess \<Longrightarrow>
     concat (map2 (\<lambda>b es. map2 g b es) bs ess) = map2 g (concat bs) (concat ess)"
  by (induction bs ess rule: list_all2_induct) simp_all

lemma success_slots:
  assumes "snd (getMultipleAccounts c ks ov order) = Inr slots"
  shows "slots = concat (map2 (\<lambda>batch reply.
            map2 decodedSlot (map (nth_js batch) [0..<length (replyEntries reply)]) (replyEntries reply))
          (batchesOf ks) (replies c ks ov))"
proof -
  from assms have ok: "\<forall>p\<in>set (outcomes c ks ov). \<not> isl p"
    and slots: "slots = concat (map projr (outcomes c ks ov))"
    by (simp_all add: fetch_success)
  have "map projr (outcomes c ks ov) = map2 (\<lambda>batch reply.
            map2 decodedSlot (map (nth_js batch) [0..<length (replyEntries reply)]) (replyEntries reply))
          (batchesOf ks) (replies c ks ov)"
  proof (rule nth_equalityI)
    show "length (map projr (outcomes c ks ov)) = length (map2 (\<lambda>batch reply.
            map2 decodedSlot (map (nth_js batch) [0..<length (replyEntries reply)]) (replyEntries reply))
          (batchesOf ks) (replies c ks ov))"
      by (simp add: length_outcomes length_replies)
  next
    fix i
    assume "i < length (map projr (outcomes c ks ov))"
    then have i: "i < length (batchesOf ks)"
      by (simp add: length_outcomes)
    then have "outcomes c ks ov ! i \<in> set (outcomes c ks ov)"
      by (simp add: length_outcomes)
    with ok obtain s where s: "outcomes c ks ov ! i = Inr s"
      by (cases "outcomes c ks ov ! i") auto
    with i have "coreOutcome (batchesOf ks ! i) (replies c ks ov ! i) = Inr s"
      by (simp add: nth_outcomes)
    from outcome_slots [OF this] s i
    show "map projr (outcomes c ks ov) ! i = map2 (\<lambda>batch reply.
            map2 decodedSlot (map (nth_js batch) [0..<length (replyEntries reply)]) (replyEntries reply))
          (batchesOf ks) (replies c ks ov) ! i"
      by (simp add: length_outcomes length_replies)
  qed
  with slots show ?thesis by simp
qed

lemma success_entries_decode:
  assumes "snd (getMultipleAccounts c ks ov order) = Inr slots"
    and "Some acc \<in> set (concat (map replyEntries (replies c ks ov)))"
  shows "\<not> isl (decodeValue [] acc)"
proof -
  from assms(2) obtain r where "r \<in> set (replies c ks ov)" and r: "Some acc \<in> set (replyEntries r)"
    by auto
  then obtain i where i: "i < length (replies c ks ov)" and "replies c ks ov ! i = r"
    by (auto simp: in_set_conv_nth)
  with r have mem: "Some acc \<in> set (replyEntries (replies c ks ov ! i))"
    by simp
  from assms(1) have ok: "\<forall>p\<in>set (outcomes c ks ov). \<not> isl p"
    by (simp add: fetch_success)
  from i have "outcomes c ks ov ! i \<in> set (outcomes c ks ov)"
    by (simp add: length_outcomes length_replies)
  with ok obtain s where "outcomes c ks ov ! i = Inr s"
    by (cases "outcomes c ks ov ! i") auto
  with i have "coreOutcome (batchesOf ks ! i) (replies c ks ov ! i) = Inr s"
    by (simp add: nth_outcomes length_replies)
  from coreOutcome_success(3) [OF this] mem show ?thesis by blast
qed

lemma length_success:
  assumes "snd (getMultipleAccounts c ks ov order) = Inr slots"
  shows "length slots = length (concat (map replyEntries (replies c ks ov)))"
proof -
  have "map length (map2 (\<lambda>batch reply.
            map2 decodedSlot (map (nth_js batch) [0..<length (replyEntries reply)]) (replyEntries reply))
          bs rs) = map (\<lambda>reply. length (replyEntries reply)) rs"
    if "length bs = length rs" for bs :: "PublicKey list list" and rs
    using that by (induction bs rs rule: list_induct2) simp_all
  from this [of "batchesOf ks" "replies c ks ov"] show ?thesis
    unfolding success_slots [OF assms] length_concat
    by (simp add: length_replies comp_def)
qed

lemma slots_of_matching_replies:
  assumes ok: "snd (getMultipleAccounts c ks ov order) = Inr slots"
    and len: "list_all2 (\<lambda>batch reply. length (replyEntries reply) = length batch)
               (batchesOf ks) (replies c ks ov)"
  shows "slots = map2 (\<lambda>k e. decodedSlot (Some k) e) ks (concat (map replyEntries (replies c ks ov)))"
proof -
  let ?g = "\<lambda>k e. decodedSlot (Some k) e"
  have same: "map2 (\<lambda>batch reply.
            map2 decodedSlot (map (nth_js batch) [0..<length (replyEntries reply)]) (replyEntries reply))
          bs rs = map2 (\<lambda>batch es. map2 ?g batch es) bs (map replyEntries rs)"
    if "list_all2 (\<lambda>batch reply. length (replyEntries reply) = length batch) bs rs"
    for bs :: "PublicKey list list" and rs
    using that
  proof (induction bs rs rule: list_all2_induct)
    case Nil
    then show ?case by simp
  next
    case (Cons b bs r rs)
    have "map2 decodedSlot (map (nth_js b) [0..<length b]) (replyEntries r)
        = map2 ?g b (replyEntries r)"
      unfolding nth_js_all by (simp add: zip_map1 split_def)
    with Cons show ?case by simp
  qed
  from len have "list_all2 (\<lambda>b es. length es = length b) (batchesOf ks) (map replyEntries (replies c ks ov))"
    by (simp add: list_all2_map2)
  then have "concat (map2 (\<lambda>b es. map2 ?g b es) (batchesOf ks) (map replyEntries (replies c ks ov)))
      = map2 ?g (concat (batchesOf ks)) (concat (map replyEntries (replies c ks ov)))"
    by (rule concat_map2_zip)
  with success_slots [OF ok] same [OF len] show ?thesis
    by (simp add: concat_batchesOf)
qed

lemma entries_of_matching_replies:
  assumes "list_all2 (\<lambda>batch reply. length (replyEntries reply) = length batch)
               (batchesOf ks) (replies c ks ov)"
  shows "length (concat (map replyEntries (replies c ks ov))) = length ks"
proof -
  have "length (concat (map replyEntries rs)) = length (concat bs)"
    if "list_all2 (\<lambda>batch reply. length (replyEntries reply) = length batch) bs rs"
    for bs :: "PublicKey list list" and rs
    using that by (induction bs rs rule: list_all2_induct) simp_all
  from this [OF assms] show ?thesis
    by (simp add: concat_batchesOf)
qed

subsection \<open>Facts about the example values\<close>

lemma replyTo_scripted: "replyTo (scripted d r) ov n batch = r n"
  by (simp add: replyTo_def scripted_def)

lemma replies_scripted:
  "replies (scripted d r) ks ov = map (\<lambda>(n, batch). r n) (enumerate 0 (batchesOf ks))"
  by (simp add: replies_def replyTo_scripted)

lemma outcomes_scripted:
  "outcomes (scripted d r) ks ov = map (\<lambda>(n, batch). coreOutcome batch (r n)) (enumerate 0 (batchesOf ks))"
  by (simp add: outcomes_def replyTo_scripted)

lemma replyEntries_okReply: "replyEntries (okReply entries) = entries"
  by (simp add: replyEntries_def okReply_def)

lemma new_PublicKey_ones: "new_PublicKey ''11111111111111111111111111111111'' = Inr zeroKey"
  by (simp add: new_PublicKey_def bs58_decode_def base58_alphabet_def zeroKey_def nat_bytes.simps eval_nat_numeral)

lemma new_PublicKey_bad: "new_PublicKey ''0'' = Inl PublicKeyError"
  by (simp add: new_PublicKey_def bs58_decode_def base58_alphabet_def)

lemma decodeAccounts_nulls:
  "decodeAccounts whole (replicate n None) accounts = Inr (accounts @ replicate n None)"
  by (induction n arbitrary: accounts) (simp_all add: replicate_app_Cons_same)

lemma attachKeys_nulls: "attachKeys ks (replicate n None) = replicate n None"
  by (rule nth_equalityI) (simp_all add: attachKeys_def nth_enumerate_eq)

lemma coreOutcome_nulls: "coreOutcome ks (okReply (replicate n None)) = Inr (replicate n None)"
  by (simp add: coreOutcome_def okReply_def decodeAccounts_nulls attachKeys_nulls)

lemma Buffer_from_SGkh: "Buffer_from_base64 ''SGkh'' = [72, 105, 33]"
proof -
  have "base64_encode [72, 105, 33] = ''SGkh''"
    by code_simp
  then show ?thesis
    using base64_roundtrip [of "[72, 105, 33]"] by simp
qed

lemma decodeValue_rawOk: "decodeValue whole rawOk = Inr (Some accountOk)"
  by (simp add: decodeValue_def truthy_array_def rawOk_def rawExample_def new_PublicKey_ones
      Buffer_from_SGkh accountOk_def)

lemma batchesOf_keys100: "batchesOf keys100 = [replicate 99 zeroKey, [otherKey]]"
proof -
  have one: "chunks keys100 99 = take 99 keys100 # chunks (drop 99 keys100) 99"
    by (intro chunks_step) (simp_all add: keys100_def)
  have two: "chunks [otherKey] 99 = take 99 [otherKey] # chunks (drop 99 [otherKey]) 99"
    by (intro chunks_step) simp_all
  from one two show ?thesis
    by (simp add: batchesOf_def GET_MULTIPLE_ACCOUNTS_LIMIT_def keys100_def chunks_Nil)
qed



section \<open>Properties of the fetch\<close>

subsection \<open>The requests\<close>

text \<open>
  Claim C8. Every request of a fetch has the method name \<^verbatim>\<open>getMultipleAccounts\<close>. Its
  parameters are the array of the base-58 strings of the identifiers of its chunk, followed
  by the object \<^verbatim>\<open>{commitment}\<close> exactly when an effective commitment was resolved.
\<close>

theorem wire_request_shape:
  "fst (getMultipleAccounts connection publicKeys commitmentOverride order) =
     map (\<lambda>batch.
            (''getMultipleAccounts'',
             Keys (map toBase58 batch)
               # (case effectiveCommitment connection commitmentOverride of
                    None \<Rightarrow> []
                  | Some level \<Rightarrow> [Config level])))
       (batchesOf publicKeys)"
  by (simp add: issued_requests rpcArgs_shape)

theorem wire_request_shape_witness:
  "fst (getMultipleAccounts (scripted (Some Finalized) (\<lambda>n. emptyReply)) [zeroKey] None [])
     = [(''getMultipleAccounts'', [Keys [toBase58 zeroKey], Config Finalized])]"
  using wire_request_shape [of "scripted (Some Finalized) (\<lambda>n. emptyReply)" "[zeroKey]" None "[]"]
  by (simp add: batchesOf_short effectiveCommitment_def scripted_def)

text \<open>
  Claim C7. In every request of a fetch the commitment is the override of the call when one
  is given, otherwise the default of the connection when it is set, and the parameter is
  left out when there is neither.
\<close>

theorem commitment_resolution:
  "\<forall>call \<in> set (fst (getMultipleAccounts connection publicKeys commitmentOverride order)).
     tl (snd call) =
       (case commitmentOverride of
          Some level \<Rightarrow> [Config level]
        | None \<Rightarrow> (case commitment connection of Some level \<Rightarrow> [Config level] | None \<Rightarrow> []))"
  by (auto simp: issued_requests rpcArgs_shape effectiveCommitment_def split: option.splits)

theorem commitment_resolution_witness:
  "map (tl \<circ> snd) (fst (getMultipleAccounts (scripted (Some Finalized) (\<lambda>n. emptyReply)) [] (Some Processed) []))
      = [[Config Processed]]
   \<and> map (tl \<circ> snd) (fst (getMultipleAccounts (scripted (Some Finalized) (\<lambda>n. emptyReply)) [] None []))
      = [[Config Finalized]]
   \<and> map (tl \<circ> snd) (fst (getMultipleAccounts (scripted None (\<lambda>n. emptyReply)) [] None []))
      = [[]]"
  using commitment_resolution [of "scripted (Some Finalized) (\<lambda>n. emptyReply)" "[]" "Some Processed" "[]"]
    commitment_resolution [of "scripted (Some Finalized) (\<lambda>n. emptyReply)" "[]" None "[]"]
    commitment_resolution [of "scripted None (\<lambda>n. emptyReply)" "[]" None "[]"]
  by (simp add: issued_requests batchesOf_short scripted_def)

text \<open>
  Claim C10. A list of at most 99 identifiers, the empty list included, takes the path that
  does not split: the fetch is the single call of \<^verbatim>\<open>getMultipleAccountsCore\<close>, and it
  issues exactly one request, which carries all the identifiers.
\<close>

theorem short_list_single_request:
  "length publicKeys \<le> 99 \<Longrightarrow>
     getMultipleAccounts connection publicKeys commitmentOverride order
       = getMultipleAccountsCore connection 0 publicKeys commitmentOverride
     \<and> length (fst (getMultipleAccounts connection publicKeys commitmentOverride order)) = 1
     \<and> map callKeys (fst (getMultipleAccounts connection publicKeys commitmentOverride order))
         = [map toBase58 publicKeys]"
  by (simp add: getMultipleAccounts_def GET_MULTIPLE_ACCOUNTS_LIMIT_def getMultipleAccountsCore_def
      Let_def callKeys_request)

theorem short_list_single_request_witness:
  "length ([] :: PublicKey list) \<le> 99
   \<and> fst (getMultipleAccounts (scripted None (\<lambda>n. emptyReply)) [] None [])
       = [(''getMultipleAccounts'', [Keys []])]
   \<and> map callKeys (fst (getMultipleAccounts (scripted None (\<lambda>n. emptyReply)) [] None [])) = [[]]"
  using short_list_single_request [of "[]" "scripted None (\<lambda>n. emptyReply)" None "[]"]
  by (simp add: getMultipleAccountsCore_def rpcArgs_shape effectiveCommitment_def scripted_def callKeys_def)

text \<open>
  Claim C5, amended. A fetch for a list of \<open>L\<close> identifiers that is not empty issues
  \<open>\<lceil>L / 99\<rceil>\<close> requests; a fetch for the empty list issues one request, which carries
  the empty array. No request carries more than 99 identifiers, the identifier arrays of the
  requests, concatenated in order, are the base-58 strings of the input list, and 150
  identifiers go out as two requests of 99 and 51.
\<close>

theorem request_count:
  "(publicKeys \<noteq> [] \<longrightarrow>
      length (fst (getMultipleAccounts connection publicKeys commitmentOverride order))
        = (length publicKeys + 98) div 99)
   \<and> (publicKeys = [] \<longrightarrow>
      map callKeys (fst (getMultipleAccounts connection publicKeys commitmentOverride order)) = [[]])
   \<and> (\<forall>call \<in> set (fst (getMultipleAccounts connection publicKeys commitmentOverride order)).
        length (callKeys call) \<le> 99)
   \<and> concat (map callKeys (fst (getMultipleAccounts connection publicKeys commitmentOverride order)))
        = map toBase58 publicKeys
   \<and> (length publicKeys = 150 \<longrightarrow>
        map (length \<circ> callKeys) (fst (getMultipleAccounts connection publicKeys commitmentOverride order))
          = [99, 51])"
proof (intro conjI impI ballI)
  assume "publicKeys \<noteq> []"
  then show "length (fst (getMultipleAccounts connection publicKeys commitmentOverride order))
        = (length publicKeys + 98) div 99"
    by (simp add: issued_requests length_batchesOf)
next
  assume "publicKeys = []"
  then show "map callKeys (fst (getMultipleAccounts connection publicKeys commitmentOverride order)) = [[]]"
    by (simp add: request_keys batchesOf_short)
next
  fix call
  assume "call \<in> set (fst (getMultipleAccounts connection publicKeys commitmentOverride order))"
  then have "callKeys call \<in> set (map (map toBase58) (batchesOf publicKeys))"
    unfolding request_keys [symmetric, of publicKeys connection commitmentOverride order] by simp
  then show "length (callKeys call) \<le> 99"
    by (auto dest: batchesOf_bounded)
next
  have "concat (map (map toBase58) (batchesOf publicKeys)) = map toBase58 (concat (batchesOf publicKeys))"
    by (simp add: map_concat)
  then show "concat (map callKeys (fst (getMultipleAccounts connection publicKeys commitmentOverride order)))
        = map toBase58 publicKeys"
    by (simp add: request_keys concat_batchesOf)
next
  assume "length publicKeys = 150"
  then have "map length (batchesOf publicKeys) = [99, 51]"
    by (rule batchesOf_150)
  then show "map (length \<circ> callKeys) (fst (getMultipleAccounts connection publicKeys commitmentOverride order))
          = [99, 51]"
    unfolding map_map [symmetric] request_keys by (simp add: comp_def)
qed

theorem request_count_witness:
  "replicate 150 zeroKey \<noteq> []
   \<and> length (replicate 150 zeroKey) = 150
   \<and> length (fst (getMultipleAccounts (scripted None (\<lambda>n. emptyReply)) (replicate 150 zeroKey) None [])) = 2
   \<and> map (length \<circ> callKeys)
        (fst (getMultipleAccounts (scripted None (\<lambda>n. emptyReply)) (replicate 150 zeroKey) None []))
        = [99, 51]
   \<and> map callKeys (fst (getMultipleAccounts (scripted None (\<lambda>n. emptyReply)) [] None [])) = [[]]"
  using request_count [of "replicate 150 zeroKey" "scripted None (\<lambda>n. emptyReply)" None "[]"]
    request_count [of "[]" "scripted None (\<lambda>n. emptyReply)" None "[]"]
  by simp

text \<open>
  The claim as stated asks for \<open>\<lceil>0 / 99\<rceil> = 0\<close> requests for the empty list; the fetch
  issues one.
\<close>

theorem empty_list_one_request:
  "length (fst (getMultipleAccounts silent [] None []))
     \<noteq> (length ([] :: PublicKey list) + 98) div 99"
  by (simp add: issued_requests batchesOf_short)

subsection \<open>The decoding loop\<close>


text \<open>
  Claim C6. For an entry that is not \<^verbatim>\<open>null\<close>, tagged \<^verbatim>\<open>base64\<close>, whose owner string
  the constructor accepts, the code of lines 113 to 122 builds a record, whatever the
  response array is: its data is the base64 decoding of the payload of the entry, its owner
  the key parsed from the owner string, and its lamports and executable flag are those of the
  entry. Decoding the base64 encoding of a byte sequence gives the sequence back, so an entry
  whose payload encodes \<open>bytes\<close> gets \<open>bytes\<close> as data. Conversely every record the code
  builds has these fields.
\<close>

theorem decoded_account_fields:
  "Buffer_from_base64 (base64_encode bytes) = bytes
   \<and> (snd (raw_data acc) = ''base64'' \<and> new_PublicKey (raw_owner acc) = Inr k \<longrightarrow>
        decodeValue whole acc
          = Inr (Some \<lparr>executable = raw_executable acc, owner = k, lamports = raw_lamports acc,
                       data = Buffer_from_base64 (fst (raw_data acc))\<rparr>))
   \<and> (snd (raw_data acc) = ''base64'' \<and> new_PublicKey (raw_owner acc) = Inr k
        \<and> fst (raw_data acc) = base64_encode bytes \<longrightarrow>
        decodeValue whole acc
          = Inr (Some \<lparr>executable = raw_executable acc, owner = k, lamports = raw_lamports acc,
                       data = bytes\<rparr>))
   \<and> (decodeValue whole acc = Inr (Some v) \<longrightarrow>
        data v = Buffer_from_base64 (fst (raw_data acc))
        \<and> new_PublicKey (raw_owner acc) = Inr (owner v)
        \<and> lamports v = raw_lamports acc
        \<and> executable v = raw_executable acc
        \<and> (fst (raw_data acc) = base64_encode bytes \<longrightarrow> data v = bytes))"
proof (intro conjI impI)
  show "Buffer_from_base64 (base64_encode bytes) = bytes"
    by (rule base64_roundtrip)
next
  assume "snd (raw_data acc) = ''base64'' \<and> new_PublicKey (raw_owner acc) = Inr k"
  then show "decodeValue whole acc
          = Inr (Some \<lparr>executable = raw_executable acc, owner = k, lamports = raw_lamports acc,
                       data = Buffer_from_base64 (fst (raw_data acc))\<rparr>)"
    by (simp add: decodeValue_def truthy_array_def)
next
  assume "snd (raw_data acc) = ''base64'' \<and> new_PublicKey (raw_owner acc) = Inr k
        \<and> fst (raw_data acc) = base64_encode bytes"
  then show "decodeValue whole acc
          = Inr (Some \<lparr>executable = raw_executable acc, owner = k, lamports = raw_lamports acc,
                       data = bytes\<rparr>)"
    by (simp add: decodeValue_def truthy_array_def base64_roundtrip)
next
  assume "decodeValue whole acc = Inr (Some v)"
  then obtain k' where k: "new_PublicKey (raw_owner acc) = Inr k'"
    and v: "v = \<lparr>executable = raw_executable acc, owner = k', lamports = raw_lamports acc,
                 data = Buffer_from_base64 (fst (raw_data acc))\<rparr>"
    by (auto simp: decodeValue_def split: if_splits sum.splits)
  from v show "data v = Buffer_from_base64 (fst (raw_data acc))" by simp
  from k v show "new_PublicKey (raw_owner acc) = Inr (owner v)" by simp
  from v show "lamports v = raw_lamports acc" by simp
  from v show "executable v = raw_executable acc" by simp
  from v show "data v = bytes" if "fst (raw_data acc) = base64_encode bytes"
    using that by (simp add: base64_roundtrip)
qed

theorem decoded_account_fields_witness:
  "snd (raw_data rawEncoded) = ''base64''
   \<and> new_PublicKey (raw_owner rawEncoded) = Inr zeroKey
   \<and> fst (raw_data rawEncoded) = base64_encode [72, 105, 33]
   \<and> decodeValue [None, Some rawEncoded] rawEncoded = Inr (Some accountOk)
   \<and> coreOutcome [zeroKey, otherKey] (okReply [None, Some rawEncoded])
       = Inr [None, Some \<lparr>publicKey = Some otherKey, account = accountOk\<rparr>]"
proof -
  have tag: "snd (raw_data rawEncoded) = ''base64''"
    by (simp add: rawEncoded_def rawExample_def)
  have own: "new_PublicKey (raw_owner rawEncoded) = Inr zeroKey"
    by (simp add: rawEncoded_def rawExample_def new_PublicKey_ones)
  have payload: "fst (raw_data rawEncoded) = base64_encode [72, 105, 33]"
    by (simp add: rawEncoded_def rawExample_def)
  from decoded_account_fields [of "[72, 105, 33]" rawEncoded zeroKey "[None, Some rawEncoded]"]
    tag own payload
  have "decodeValue [None, Some rawEncoded] rawEncoded
      = Inr (Some \<lparr>executable = raw_executable rawEncoded, owner = zeroKey,
                   lamports = raw_lamports rawEncoded, data = [72, 105, 33]\<rparr>)"
    by blast
  then have built: "decodeValue [None, Some rawEncoded] rawEncoded = Inr (Some accountOk)"
    by (simp add: accountOk_def rawEncoded_def rawExample_def)
  then have "coreOutcome [zeroKey, otherKey] (okReply [None, Some rawEncoded])
       = Inr [None, Some \<lparr>publicKey = Some otherKey, account = accountOk\<rparr>]"
    by (simp add: coreOutcome_def okReply_def attachKeys_def nth_js_def)
  with tag own payload built show ?thesis
    by (intro conjI)
qed

text \<open>
  Claim C4, amended. For a reply without an error, the call fails exactly when the reply has
  no result, or an entry that is not \<^verbatim>\<open>null\<close> has an encoding tag other than
  \<^verbatim>\<open>base64\<close> or an owner string that the \<^verbatim>\<open>PublicKey\<close> constructor rejects. No
  entry is skipped: a call that succeeds returns one slot for each entry, and a fetch fails
  exactly when one of its calls fails.
\<close>

theorem decode_failure_causes:
  "(res_error res = None \<longrightarrow>
      (isl (coreOutcome publicKeys (Reply res)) \<longleftrightarrow>
         res_result res = None
         \<or> (\<exists>acc. Some acc \<in> set (replyEntries (Reply res))
               \<and> (snd (raw_data acc) \<noteq> ''base64'' \<or> isl (new_PublicKey (raw_owner acc))))))
   \<and> (coreOutcome publicKeys (Reply res) = Inr slots \<longrightarrow>
        length slots = length (replyEntries (Reply res)))
   \<and> (isl (snd (getMultipleAccounts connection keys commitmentOverride order)) \<longleftrightarrow>
        (\<exists>p \<in> set (outcomes connection keys commitmentOverride). isl p))"
proof (intro conjI impI)
  assume "res_error res = None"
  then show "isl (coreOutcome publicKeys (Reply res)) \<longleftrightarrow>
         res_result res = None
         \<or> (\<exists>acc. Some acc \<in> set (replyEntries (Reply res))
               \<and> (snd (raw_data acc) \<noteq> ''base64'' \<or> isl (new_PublicKey (raw_owner acc))))"
    by (simp add: coreOutcome_fails_iff decodeValue_fails_iff)
next
  assume "coreOutcome publicKeys (Reply res) = Inr slots"
  from outcome_slots [OF this] show "length slots = length (replyEntries (Reply res))"
    by simp
next
  show "isl (snd (getMultipleAccounts connection keys commitmentOverride order)) \<longleftrightarrow>
        (\<exists>p \<in> set (outcomes connection keys commitmentOverride). isl p)"
    by (rule fetch_fails_iff)
qed

theorem decode_failure_causes_witness:
  "res_error \<lparr>res_error = None,
              res_result = Some \<lparr>result_value =
                [None, Some (rawExample ''11111111111111111111111111111111'' ''SGkh'' ''base58'')]\<rparr>\<rparr>
     = None
   \<and> isl (coreOutcome [zeroKey, otherKey]
        (Reply \<lparr>res_error = None,
                res_result = Some \<lparr>result_value =
                  [None, Some (rawExample ''11111111111111111111111111111111'' ''SGkh'' ''base58'')]\<rparr>\<rparr>))
   \<and> \<not> isl (coreOutcome [zeroKey, otherKey]
        (Reply \<lparr>res_error = None, res_result = Some \<lparr>result_value = [None, Some rawOk]\<rparr>\<rparr>))"
  using decode_failure_causes [of
      "\<lparr>res_error = None,
        res_result = Some \<lparr>result_value =
          [None, Some (rawExample ''11111111111111111111111111111111'' ''SGkh'' ''base58'')]\<rparr>\<rparr>"
      "[zeroKey, otherKey]"]
    decode_failure_causes [of
      "\<lparr>res_error = None, res_result = Some \<lparr>result_value = [None, Some rawOk]\<rparr>\<rparr>"
      "[zeroKey, otherKey]"]
  by (auto simp: replyEntries_def rawExample_def rawOk_def new_PublicKey_ones)

text \<open>
  The claim as stated fails for an entry that is present and tagged \<^verbatim>\<open>base64\<close> in a
  reply that has a result: the owner string \<^verbatim>\<open>0\<close> is not base-58 text, the constructor
  throws, and the call fails.
\<close>

theorem owner_text_rejected:
  "res_error \<lparr>res_error = None,
              res_result = Some \<lparr>result_value = [Some (rawExample ''0'' ''SGkh'' ''base64'')]\<rparr>\<rparr>
     = None
   \<and> res_result \<lparr>res_error = None,
              res_result = Some \<lparr>result_value = [Some (rawExample ''0'' ''SGkh'' ''base64'')]\<rparr>\<rparr>
     \<noteq> None
   \<and> snd (raw_data (rawExample ''0'' ''SGkh'' ''base64'')) = ''base64''
   \<and> coreOutcome [zeroKey]
        (Reply \<lparr>res_error = None,
                res_result = Some \<lparr>result_value = [Some (rawExample ''0'' ''SGkh'' ''base64'')]\<rparr>\<rparr>)
       = Inl PublicKeyError"
  by (simp add: coreOutcome_def decodeValue_def truthy_array_def rawExample_def new_PublicKey_bad)

subsection \<open>The result\<close>

text \<open>
  Claim C1, amended. When a fetch succeeds and the reply to each request carries as many
  entries as the request has identifiers, the result has one slot for each identifier of the
  input, in order: slot \<open>i\<close> is built from identifier \<open>i\<close> and from entry \<open>i\<close> of the
  replies taken together, however the list was split. The slot is \<^verbatim>\<open>null\<close> exactly when
  the entry is, and a slot that is not \<^verbatim>\<open>null\<close> holds identifier \<open>i\<close>.
\<close>

theorem slots_follow_identifiers:
  assumes "snd (getMultipleAccounts connection publicKeys commitmentOverride order) = Inr slots"
    and "list_all2 (\<lambda>batch reply. length (replyEntries reply) = length batch)
           (batchesOf publicKeys) (replies connection publicKeys commitmentOverride)"
  shows "length slots = length publicKeys
    \<and> slots = map2 (\<lambda>k e. decodedSlot (Some k) e) publicKeys
                (concat (map replyEntries (replies connection publicKeys commitmentOverride)))
    \<and> (\<forall>i<length publicKeys.
          (concat (map replyEntries (replies connection publicKeys commitmentOverride)) ! i = None
             \<longleftrightarrow> slots ! i = None)
          \<and> (\<forall>s. slots ! i = Some s \<longrightarrow> publicKey s = Some (publicKeys ! i)))"
proof -
  let ?entries = "concat (map replyEntries (replies connection publicKeys commitmentOverride))"
  have entries: "length ?entries = length publicKeys"
    using assms(2) by (rule entries_of_matching_replies)
  have slots: "slots = map2 (\<lambda>k e. decodedSlot (Some k) e) publicKeys ?entries"
    using assms by (rule slots_of_matching_replies)
  with entries have len: "length slots = length publicKeys"
    by simp
  have "(?entries ! i = None \<longleftrightarrow> slots ! i = None)
      \<and> (\<forall>s. slots ! i = Some s \<longrightarrow> publicKey s = Some (publicKeys ! i))"
    if i: "i < length publicKeys" for i
  proof -
    from i entries slots have nth: "slots ! i = decodedSlot (Some (publicKeys ! i)) (?entries ! i)"
      by simp
    have "?entries ! i = None" if none: "slots ! i = None"
    proof (cases "?entries ! i")
      case None
      then show ?thesis .
    next
      case (Some acc)
      with i entries have "Some acc \<in> set ?entries"
        by (metis nth_mem)
      with assms(1) have "\<not> isl (decodeValue [] acc)"
        by (rule success_entries_decode)
      then have "decodedAccount (Some acc) \<noteq> None"
        by (rule decodedAccount_present)
      with nth Some none show ?thesis
        by (simp add: decodedSlot_def)
    qed
    with nth show ?thesis
      by (auto dest: decodedSlot_publicKey)
  qed
  with len slots show ?thesis by blast
qed

theorem slots_follow_identifiers_witness:
  "snd (getMultipleAccounts
          (scripted None (\<lambda>n. if n = 0 then okReply (replicate 99 None) else okReply [Some rawOk]))
          keys100 None [])
     = Inr (replicate 99 None @ [Some \<lparr>publicKey = Some otherKey, account = accountOk\<rparr>])
   \<and> length (replicate 99 (None :: Slot option) @ [Some \<lparr>publicKey = Some otherKey, account = accountOk\<rparr>])
       = length keys100"
proof -
  let ?c = "scripted None (\<lambda>n. if n = 0 then okReply (replicate 99 None) else okReply [Some rawOk])"
  let ?slots = "replicate 99 None @ [Some \<lparr>publicKey = Some otherKey, account = accountOk\<rparr>]"
  have last: "coreOutcome [otherKey] (okReply [Some rawOk])
      = Inr [Some \<lparr>publicKey = Some otherKey, account = accountOk\<rparr>]"
    by (simp add: coreOutcome_def okReply_def decodeValue_rawOk attachKeys_def nth_js_def)
  have run: "snd (getMultipleAccounts ?c keys100 None []) = Inr ?slots"
    by (simp add: fetch_success outcomes_scripted batchesOf_keys100 coreOutcome_nulls last)
  have lens: "list_all2 (\<lambda>batch reply. length (replyEntries reply) = length batch)
           (batchesOf keys100) (replies ?c keys100 None)"
    by (simp add: replies_scripted batchesOf_keys100 replyEntries_okReply)
  have "length ?slots = length keys100"
    by (rule conjunct1 [OF slots_follow_identifiers [OF run lens]])
  with run show ?thesis
    by (rule conjI)
qed

text \<open>
  The claim as stated fails when a reply is longer than its request: for one identifier and
  a reply with two entries the fetch succeeds with two slots, and the second slot holds no
  identifier.
\<close>

theorem long_reply_breaks_pairing:
  "snd (getMultipleAccounts twoEntries [zeroKey] None [])
     = Inr [None, Some \<lparr>publicKey = None, account = accountOk\<rparr>]
   \<and> length [None, Some \<lparr>publicKey = None, account = accountOk\<rparr>] \<noteq> length [zeroKey]"
  by (simp add: twoEntries_def fetch_success outcomes_scripted batchesOf_short coreOutcome_def
      okReply_def decodeValue_rawOk attachKeys_def nth_js_def)

text \<open>
  Claim C3, amended. The fetch does not compare the number of decoded entries with the
  number of identifiers. Whenever none of its calls fails it returns, and its result has one
  slot for each entry of the replies: the length of the result is the number of entries of
  all the replies together, whatever the number of identifiers is. Whether a call fails does
  not depend on the identifiers it was made for.
\<close>

theorem result_length_is_entry_count:
  "((\<forall>p \<in> set (outcomes connection publicKeys commitmentOverride). \<not> isl p) \<longrightarrow>
      (\<exists>slots.
         snd (getMultipleAccounts connection publicKeys commitmentOverride order) = Inr slots
         \<and> length slots
             = length (concat (map replyEntries (replies connection publicKeys commitmentOverride)))))
   \<and> (snd (getMultipleAccounts connection publicKeys commitmentOverride order) = Inr result \<longrightarrow>
        length result
          = length (concat (map replyEntries (replies connection publicKeys commitmentOverride))))
   \<and> (isl (coreOutcome batch reply) \<longleftrightarrow> isl (coreOutcome otherBatch reply))"
proof (intro conjI impI)
  let ?fetch = "snd (getMultipleAccounts connection publicKeys commitmentOverride order)"
  assume "\<forall>p \<in> set (outcomes connection publicKeys commitmentOverride). \<not> isl p"
  then have run: "?fetch = Inr (concat (map projr (outcomes connection publicKeys commitmentOverride)))"
    by (simp add: fetch_success)
  from length_success [OF run] run
  show "\<exists>slots. ?fetch = Inr slots
         \<and> length slots
             = length (concat (map replyEntries (replies connection publicKeys commitmentOverride)))"
    by blast
next
  assume "snd (getMultipleAccounts connection publicKeys commitmentOverride order) = Inr result"
  then show "length result
          = length (concat (map replyEntries (replies connection publicKeys commitmentOverride)))"
    by (rule length_success)
next
  show "isl (coreOutcome batch reply) \<longleftrightarrow> isl (coreOutcome otherBatch reply)"
    by (rule coreOutcome_fails_any_keys)
qed

theorem result_length_is_entry_count_witness:
  "outcomes threeNulls [zeroKey, zeroKey] None = [Inr [None, None, None]]
   \<and> snd (getMultipleAccounts threeNulls [zeroKey, zeroKey] None []) = Inr [None, None, None]
   \<and> length (concat (map replyEntries (replies threeNulls [zeroKey, zeroKey] None))) = 3
   \<and> length [zeroKey, zeroKey] = 2"
proof -
  have calls: "outcomes threeNulls [zeroKey, zeroKey] None = [Inr [None, None, None]]"
    by (simp add: threeNulls_def outcomes_scripted batchesOf_short coreOutcome_def okReply_def
        attachKeys_def)
  then have ok: "\<forall>p \<in> set (outcomes threeNulls [zeroKey, zeroKey] None). \<not> isl p"
    by simp
  have run: "snd (getMultipleAccounts threeNulls [zeroKey, zeroKey] None []) = Inr [None, None, None]"
    by (simp add: threeNulls_def fetch_success outcomes_scripted batchesOf_short coreOutcome_def
        okReply_def attachKeys_def)
  from result_length_is_entry_count [of threeNulls "[zeroKey, zeroKey]" None "[]"] ok
  obtain slots where returned: "snd (getMultipleAccounts threeNulls [zeroKey, zeroKey] None []) = Inr slots"
    and len: "length slots
        = length (concat (map replyEntries (replies threeNulls [zeroKey, zeroKey] None)))"
    by blast
  from returned run have "slots = [None, None, None]"
    by simp
  with len have "length (concat (map replyEntries (replies threeNulls [zeroKey, zeroKey] None))) = 3"
    by simp
  with calls run show ?thesis
    by simp
qed

text \<open>
  The claim as stated fails for one identifier and a reply without entries: the counts
  differ, and the fetch returns the empty result.
\<close>

theorem short_reply_is_returned:
  "length (concat (map replyEntries (replies noEntries [zeroKey] None))) \<noteq> length [zeroKey]
   \<and> snd (getMultipleAccounts noEntries [zeroKey] None []) = Inr []"
  by (simp add: noEntries_def fetch_success outcomes_scripted replies_scripted batchesOf_short
      coreOutcome_def okReply_def attachKeys_def replyEntries_def)

subsection \<open>Failure of a request\<close>

text \<open>
  Claim C2, amended. When the reply to the request of some chunk has a structured error, the
  fetch fails, so no result of another chunk is returned, and the failure of the fetch is the
  failure of one of its calls. When the call for that chunk is the only one that fails, the
  fetch fails with the error whose message is built from the base-58 strings of the
  identifiers of that chunk, joined by commas, and the message of the remote error; both are
  contained in it.
\<close>

theorem remote_error_aborts_fetch:
  assumes "i < length (batchesOf publicKeys)"
    and "replyError (replies connection publicKeys commitmentOverride ! i) = Some err"
  shows "isl (snd (getMultipleAccounts connection publicKeys commitmentOverride order))
    \<and> snd (getMultipleAccounts connection publicKeys commitmentOverride order)
        \<in> set (outcomes connection publicKeys commitmentOverride)
    \<and> ((\<forall>j<length (batchesOf publicKeys).
           j \<noteq> i \<longrightarrow> \<not> isl (outcomes connection publicKeys commitmentOverride ! j)) \<longrightarrow>
         snd (getMultipleAccounts connection publicKeys commitmentOverride order)
           = Inl (Error (failureMessage (batchesOf publicKeys ! i) err)))
    \<and> sublist (error_message err) (failureMessage (batchesOf publicKeys ! i) err)
    \<and> sublist (join '', '' (map toBase58 (batchesOf publicKeys ! i)))
         (failureMessage (batchesOf publicKeys ! i) err)"
proof -
  let ?out = "outcomes connection publicKeys commitmentOverride"
  let ?fetch = "snd (getMultipleAccounts connection publicKeys commitmentOverride order)"
  from assms have this_one: "?out ! i = Inl (Error (failureMessage (batchesOf publicKeys ! i) err))"
    by (simp add: nth_outcomes coreOutcome_error)
  with assms(1) have "\<exists>p\<in>set ?out. isl p"
    by (metis length_outcomes nth_mem sum.disc(1))
  then have fails: "isl ?fetch"
    by (simp add: fetch_fails_iff)
  then obtain e where e: "?fetch = Inl e"
    by (cases ?fetch) simp_all
  then have member: "?fetch \<in> set ?out"
    using fetch_failure [of connection publicKeys commitmentOverride order e] by simp
  have only: "?fetch = Inl (Error (failureMessage (batchesOf publicKeys ! i) err))"
    if others: "\<forall>j<length (batchesOf publicKeys). j \<noteq> i \<longrightarrow> \<not> isl (?out ! j)"
  proof -
    have "Promise_all order ?out = Inl (Error (failureMessage (batchesOf publicKeys ! i) err))"
      using assms(1) this_one others
      by (intro Promise_all_only_failure [of i]) (simp_all add: length_outcomes)
    then show ?thesis
      by (simp add: fetch_outcome)
  qed
  from fails member only failureMessage_contains [of err "batchesOf publicKeys ! i"]
  show ?thesis by blast
qed

theorem remote_error_aborts_fetch_witness:
  "snd (getMultipleAccounts
          (scripted None (\<lambda>n. if n = 0 then okReply (replicate 99 None) else errorReply ''boom''))
          keys100 None [])
     = Inl (Error (failureMessage [otherKey] \<lparr>error_message = ''boom''\<rparr>))
   \<and> sublist ''boom'' (failureMessage [otherKey] \<lparr>error_message = ''boom''\<rparr>)
   \<and> sublist (toBase58 otherKey) (failureMessage [otherKey] \<lparr>error_message = ''boom''\<rparr>)"
proof -
  let ?c = "scripted None (\<lambda>n. if n = 0 then okReply (replicate 99 None) else errorReply ''boom'')"
  have i: "1 < length (batchesOf keys100)"
    by (simp add: batchesOf_keys100)
  have err: "replyError (replies ?c keys100 None ! 1) = Some \<lparr>error_message = ''boom''\<rparr>"
    by (simp add: replies_scripted batchesOf_keys100 replyError_def errorReply_def)
  have others: "\<forall>j<length (batchesOf keys100). j \<noteq> 1 \<longrightarrow> \<not> isl (outcomes ?c keys100 None ! j)"
    by (simp add: outcomes_scripted batchesOf_keys100 coreOutcome_nulls less_Suc_eq)
  from remote_error_aborts_fetch [OF i err, of "[]"] others show ?thesis
    by (simp add: batchesOf_keys100)
qed

text \<open>
  The claim as stated fails when another call fails as well and settles first: here the
  first request is rejected by the transport and the second is answered with a structured
  error, and the fetch fails with the failure of the transport.
\<close>

theorem first_failure_wins:
  "replyError (replies timeoutThenBoom keys100 None ! 1) = Some \<lparr>error_message = ''boom''\<rparr>
   \<and> snd (getMultipleAccounts timeoutThenBoom keys100 None []) = Inl (TransportError ''timeout'')"
  by (simp add: timeoutThenBoom_def replies_scripted fetch_outcome outcomes_scripted
      batchesOf_keys100 replyError_def errorReply_def coreOutcome_def Promise_all_def)


end
